theory Spec2Isabelle
  imports Main "HOL-Library.Sublist"
begin

section \<open>express-zod-validations: the request model\<close>

text \<open>
  The whole program is \<^verbatim>\<open>src/index.ts\<close>: the configuration middleware
  \<^verbatim>\<open>expressZodValidations\<close> and the validating middleware \<^verbatim>\<open>validate\<close>.

  A key is a property name of the request object. The declared type
  \<^verbatim>\<open>ValidationKey\<close> lists four of them; the loop of \<^verbatim>\<open>validate\<close> receives
  whatever \<^verbatim>\<open>Object.entries(props)\<close> yields, cast to that type without a check.
\<close>

type_synonym key = string

definition ValidationKey :: "key set" where
  "ValidationKey = {''headers'', ''params'', ''query'', ''body''}"

text \<open>
  \<^verbatim>\<open>interface ValidationConfigs { throwErrors?: boolean; overwriteRequest?: boolean }\<close>:
  both fields are optional, \<open>None\<close> is the absent field.
\<close>

record ValidationConfigs =
  throwErrors :: "bool option"
  overwriteRequest :: "bool option"

text \<open>
  The request. \<open>part req key\<close> is \<^verbatim>\<open>req[key]\<close>, the live request data, for the
  properties other than the three validation fields (a JavaScript value, which may be
  \<^verbatim>\<open>undefined\<close>, so the type \<open>'v\<close> of values is left open). \<open>getter_only req\<close> is
  the set of properties that the framework defines on the request by a getter without
  a setter: they can be read, and an assignment to one of them raises a
  \<^verbatim>\<open>TypeError\<close> (the source is a module, hence strict code). On an Express 5
  request \<^verbatim>\<open>query\<close> is such a property. The three validation fields are optional;
  the two maps are partial records from key to error or value.

  In the source the three validation fields are properties of the same object as the
  live data, and the maps are JavaScript objects, in which \<^verbatim>\<open>__proto__\<close> names the
  prototype link and not an entry. The record keeps the fields apart and takes the
  maps as plain maps, so it describes the code for the schema maps in which no entry
  with a schema has one of these names (\<open>unmodelled_keys\<close> below); the four declared
  keys are not among them.
\<close>

record ('v, 'e) ValidationRequest =
  part :: "key \<Rightarrow> 'v"
  getter_only :: "key set"
  validationConfigs :: "ValidationConfigs option"
  validationErrors :: "(key \<rightharpoonup> 'e) option"
  validationValues :: "(key \<rightharpoonup> 'v) option"

definition validation_fields :: "key set" where
  "validation_fields = {''validationConfigs'', ''validationErrors'', ''validationValues''}"

definition unmodelled_keys :: "key set" where
  "unmodelled_keys = validation_fields \<union> {''__proto__''}"

text \<open>
  The schema engine is external. \<^verbatim>\<open>schema.safeParseAsync(data, options)\<close> resolves to
  \<^verbatim>\<open>{success: true, data}\<close> or \<^verbatim>\<open>{success: false, error}\<close>, or rejects with
  whatever the engine threw (\<open>Inl\<close>).
\<close>

datatype ('v, 'e) SafeParseResult = success 'v | failure 'e

type_synonym ('v, 'e, 'x, 'o) ZodType = "'v \<Rightarrow> 'o \<Rightarrow> 'x + ('v, 'e) SafeParseResult"

text \<open>
  \<^verbatim>\<open>props\<close> is given by its entries, in the order of \<^verbatim>\<open>Object.entries(props)\<close>
  (for these property names, the order in which the object's keys were created); a
  schema that is \<^verbatim>\<open>undefined\<close> or \<^verbatim>\<open>null\<close> is \<open>None\<close>. An object has each
  key once, so the keys of an entry list are distinct.
\<close>

type_synonym ('v, 'e, 'x, 'o) ValidationProps = "(key \<times> ('v, 'e, 'x, 'o) ZodType option) list"

text \<open>
  What the middleware hands to the framework: \<^verbatim>\<open>next()\<close>, \<^verbatim>\<open>next(result.error)\<close>
  with the validation error of a part, or \<^verbatim>\<open>next(error)\<close> from the \<^verbatim>\<open>catch\<close>,
  with the exception the schema engine threw or with the \<^verbatim>\<open>TypeError\<close> of a refused
  assignment.
\<close>

datatype ('e, 'x) NextCall = Next | NextError 'e | NextThrown 'x | NextTypeError

section \<open>The middlewares\<close>

text \<open>\<^verbatim>\<open>req.validationConfigs = configs; next()\<close>\<close>

definition expressZodValidations ::
  "ValidationConfigs \<Rightarrow> ('v, 'e) ValidationRequest \<Rightarrow> ('v, 'e) ValidationRequest \<times> ('e, 'x) NextCall" where
  "expressZodValidations configs req = (req\<lparr>validationConfigs := Some configs\<rparr>, Next)"

text \<open>
  The maps as the loop sees them. \<^verbatim>\<open>validate\<close> creates both before the loop starts
  (\<^verbatim>\<open>??= {}\<close>), so inside the loop the field is never absent.
\<close>

definition errors_of :: "('v, 'e) ValidationRequest \<Rightarrow> key \<rightharpoonup> 'e" where
  "errors_of req = (case validationErrors req of None \<Rightarrow> Map.empty | Some m \<Rightarrow> m)"

definition values_of :: "('v, 'e) ValidationRequest \<Rightarrow> key \<rightharpoonup> 'v" where
  "values_of req = (case validationValues req of None \<Rightarrow> Map.empty | Some m \<Rightarrow> m)"

text \<open>
  The success branch, lines 54 to 56. Lines 54 and 55 always complete. Line 56,
  \<^verbatim>\<open>if (overwriteRequest) req[key] = result.data\<close>, assigns to a property of the
  request: on a getter-only property the assignment throws. \<open>Inl\<close> is that case, with
  the request as lines 54 and 55 left it; \<open>Inr\<close> is the normal completion.
\<close>

definition on_success ::
  "bool \<Rightarrow> key \<Rightarrow> 'v \<Rightarrow> ('v, 'e) ValidationRequest
     \<Rightarrow> ('v, 'e) ValidationRequest + ('v, 'e) ValidationRequest" where
  "on_success overwrite_request key data req =
     (let req1 = req\<lparr>validationErrors := Some ((errors_of req)(key := None))\<rparr>;
          req2 = req1\<lparr>validationValues := Some ((values_of req1)(key \<mapsto> data))\<rparr>
      in if overwrite_request
         then (if key \<in> getter_only req2 then Inl req2
               else Inr (req2\<lparr>part := (part req2)(key := data)\<rparr>))
         else Inr req2)"

text \<open>The failure branch up to the test of \<^verbatim>\<open>throwErrors\<close>, lines 58 and 59.\<close>

definition on_failure :: "key \<Rightarrow> 'e \<Rightarrow> ('v, 'e) ValidationRequest \<Rightarrow> ('v, 'e) ValidationRequest" where
  "on_failure key error req =
     (let req1 = req\<lparr>validationErrors := Some ((errors_of req)(key \<mapsto> error))\<rparr>
      in req1\<lparr>validationValues := Some ((values_of req1)(key := None))\<rparr>)"

text \<open>
  The result of the loop: the request as it is left, the keys whose schema was run
  (in the order of the calls of \<^verbatim>\<open>safeParseAsync\<close>), and the call of \<^verbatim>\<open>next\<close>.
\<close>

type_synonym ('v, 'e, 'x) Outcome = "('v, 'e) ValidationRequest \<times> key list \<times> ('e, 'x) NextCall"

definition called :: "key \<Rightarrow> ('v, 'e, 'x) Outcome \<Rightarrow> ('v, 'e, 'x) Outcome" where
  "called key out = (case out of (req, calls, nxt) \<Rightarrow> (req, key # calls, nxt))"

text \<open>
  The \<^verbatim>\<open>for\<close> loop of lines 45 to 62 with the \<^verbatim>\<open>next()\<close> of line 64 and the
  \<^verbatim>\<open>catch\<close> of lines 65 to 67. An entry without schema is skipped (line 49). A
  schema that throws, or an assignment of line 56 that throws, leaves the loop for the
  \<^verbatim>\<open>catch\<close>, which calls \<^verbatim>\<open>next(error)\<close> on the request as it stands. A failure
  under \<^verbatim>\<open>throwErrors\<close> returns from the middleware with \<^verbatim>\<open>next(result.error)\<close>,
  after lines 58 and 59 have run. The continuation \<^verbatim>\<open>next\<close> belongs to the
  framework; the call made to it is the third component of the result.
\<close>

fun for_entries ::
  "bool \<Rightarrow> bool \<Rightarrow> 'o \<Rightarrow> ('v, 'e, 'x, 'o) ValidationProps \<Rightarrow> ('v, 'e) ValidationRequest
     \<Rightarrow> ('v, 'e, 'x) Outcome" where
  "for_entries throw_errors overwrite_request options [] req = (req, [], Next)"
| "for_entries throw_errors overwrite_request options ((key, None) # rest) req =
     for_entries throw_errors overwrite_request options rest req"
| "for_entries throw_errors overwrite_request options ((key, Some schema) # rest) req =
     (case schema (part req key) options of
        Inl error \<Rightarrow> (req, [key], NextThrown error)
      | Inr (success data) \<Rightarrow>
          (case on_success overwrite_request key data req of
             Inl req1 \<Rightarrow> (req1, [key], NextTypeError)
           | Inr req1 \<Rightarrow>
               called key (for_entries throw_errors overwrite_request options rest req1))
      | Inr (failure error) \<Rightarrow>
          (if throw_errors then (on_failure key error req, [key], NextError error)
           else called key (for_entries throw_errors overwrite_request options rest
             (on_failure key error req))))"

text \<open>
  Lines 38 to 40, the three \<^verbatim>\<open>??=\<close>: an absent field is created empty, a
  present one is kept.
\<close>

definition configs_of :: "('v, 'e) ValidationRequest \<Rightarrow> ValidationConfigs" where
  "configs_of req =
     (case validationConfigs req of
        None \<Rightarrow> \<lparr>throwErrors = None, overwriteRequest = None\<rparr>
      | Some configs \<Rightarrow> configs)"

definition ensure_fields :: "('v, 'e) ValidationRequest \<Rightarrow> ('v, 'e) ValidationRequest" where
  "ensure_fields req =
     req\<lparr>validationConfigs := Some (configs_of req),
         validationErrors := Some (errors_of req),
         validationValues := Some (values_of req)\<rparr>"

text \<open>
  Lines 42 and 43, the destructuring
  \<^verbatim>\<open>const { throwErrors = false, overwriteRequest = false } = req.validationConfigs\<close>:
  the default stands in for an absent field.
\<close>

definition with_default :: "bool \<Rightarrow> bool option \<Rightarrow> bool" where
  "with_default d field = (case field of None \<Rightarrow> d | Some b \<Rightarrow> b)"

definition validate ::
  "('v, 'e, 'x, 'o) ValidationProps \<Rightarrow> 'o \<Rightarrow> ('v, 'e) ValidationRequest \<Rightarrow> ('v, 'e, 'x) Outcome" where
  "validate props options req =
     (let req0 = ensure_fields req;
          throw_errors = with_default False (throwErrors (configs_of req0));
          overwrite_request = with_default False (overwriteRequest (configs_of req0))
      in for_entries throw_errors overwrite_request options props req0)"

text \<open>The four wrappers of lines 70 to 79.\<close>

definition validateHeaders :: "('v, 'e, 'x, 'o) ZodType \<Rightarrow> 'o \<Rightarrow> ('v, 'e) ValidationRequest \<Rightarrow> ('v, 'e, 'x) Outcome" where
  "validateHeaders headers options = validate [(''headers'', Some headers)] options"

definition validateParams :: "('v, 'e, 'x, 'o) ZodType \<Rightarrow> 'o \<Rightarrow> ('v, 'e) ValidationRequest \<Rightarrow> ('v, 'e, 'x) Outcome" where
  "validateParams params options = validate [(''params'', Some params)] options"

definition validateQuery :: "('v, 'e, 'x, 'o) ZodType \<Rightarrow> 'o \<Rightarrow> ('v, 'e) ValidationRequest \<Rightarrow> ('v, 'e, 'x) Outcome" where
  "validateQuery query options = validate [(''query'', Some query)] options"

definition validateBody :: "('v, 'e, 'x, 'o) ZodType \<Rightarrow> 'o \<Rightarrow> ('v, 'e) ValidationRequest \<Rightarrow> ('v, 'e, 'x) Outcome" where
  "validateBody body options = validate [(''body'', Some body)] options"

section \<open>Reading an outcome\<close>

abbreviation request :: "('v, 'e, 'x) Outcome \<Rightarrow> ('v, 'e) ValidationRequest" where
  "request out \<equiv> fst out"

abbreviation calls :: "('v, 'e, 'x) Outcome \<Rightarrow> key list" where
  "calls out \<equiv> fst (snd out)"

abbreviation next_call :: "('v, 'e, 'x) Outcome \<Rightarrow> ('e, 'x) NextCall" where
  "next_call out \<equiv> snd (snd out)"

text \<open>The keys of the entries that pass the test \<^verbatim>\<open>if (!schema) continue\<close>, in entry order.\<close>

definition configured :: "('v, 'e, 'x, 'o) ValidationProps \<Rightarrow> key list" where
  "configured props = map fst (filter (\<lambda>(key, schema). schema \<noteq> None) props)"


text \<open>
  Everything a later handler can see of an invocation apart from the configuration
  record itself: the live data, the two maps, the schema calls and the call of \<open>next\<close>.
\<close>

definition observed ::
  "('v, 'e, 'x) Outcome \<Rightarrow> (key \<Rightarrow> 'v) \<times> (key \<rightharpoonup> 'e) \<times> (key \<rightharpoonup> 'v) \<times> key list \<times> ('e, 'x) NextCall" where
  "observed out =
     (part (request out), errors_of (request out), values_of (request out), calls out, next_call out)"

text \<open>A key has an entry when the error map or the value map holds one for it.\<close>

definition has_entry :: "('v, 'e) ValidationRequest \<Rightarrow> key \<Rightarrow> bool" where
  "has_entry req k \<longleftrightarrow> k \<in> dom (errors_of req) \<union> dom (values_of req)"

section \<open>The order the specification names\<close>

text \<open>
  This definition follows the words of the specification, not the source: the
  configured keys listed in the fixed order headers, params, query, body. The calls the
  loop makes are compared with it.
\<close>

definition fixed_order :: "key list" where
  "fixed_order = [''headers'', ''params'', ''query'', ''body'']"

definition spec_fixed_order :: "('v, 'e, 'x, 'o) ValidationProps \<Rightarrow> key list" where
  "spec_fixed_order props = filter (\<lambda>key. key \<in> set (configured props)) fixed_order"

section \<open>Concrete requests and schemas\<close>

text \<open>
  A request as the framework delivers it, with none of the three validation fields and
  with \<^verbatim>\<open>query\<close> defined by a getter, as on an Express 5 request; and three schemas
  over strings: one that accepts and transforms its input, one that rejects every input,
  one whose evaluation throws.
\<close>

definition incoming :: "(string, string) ValidationRequest" where
  "incoming =
     \<lparr>part = (\<lambda>key. if key = ''body'' then ''John'' else if key = ''headers'' then ''json''
                    else if key = ''query'' then ''page=2'' else ''none''),
      getter_only = {''query''},
      validationConfigs = None, validationErrors = None, validationValues = None\<rparr>"

definition accepting :: "(string, string, string, unit) ZodType" where
  "accepting data options = Inr (success (data @ ''!''))"

definition rejecting :: "(string, string, string, unit) ZodType" where
  "rejecting data options = Inr (failure ''invalid'')"

definition throwing :: "(string, string, string, unit) ZodType" where
  "throwing data options = Inl ''boom''"

text \<open>
  The same request after \<^verbatim>\<open>expressZodValidations({ throwErrors: true })\<close>, and
  after \<^verbatim>\<open>expressZodValidations({ overwriteRequest: true })\<close>.
\<close>

definition throwing_request :: "(string, string) ValidationRequest" where
  "throwing_request =
     fst (expressZodValidations \<lparr>throwErrors = Some True, overwriteRequest = None\<rparr> incoming
            :: (string, string) ValidationRequest \<times> (string, string) NextCall)"

definition overwriting_request :: "(string, string) ValidationRequest" where
  "overwriting_request =
     fst (expressZodValidations \<lparr>throwErrors = None, overwriteRequest = Some True\<rparr> incoming
            :: (string, string) ValidationRequest \<times> (string, string) NextCall)"


lemmas run_simps =
  validate_def ensure_fields_def configs_of_def errors_of_def values_of_def with_default_def
  on_success_def on_failure_def called_def expressZodValidations_def Let_def
  incoming_def accepting_def rejecting_def throwing_def

section \<open>The two branches of an iteration\<close>

lemma on_success_Inl:
  "on_success ow k d req = Inl r \<Longrightarrow>
   errors_of r = (errors_of req)(k := None) \<and> values_of r = (values_of req)(k \<mapsto> d) \<and>
   part r = part req \<and> getter_only r = getter_only req \<and> ow \<and> k \<in> getter_only req"
  by (auto simp: on_success_def Let_def errors_of_def values_of_def split: if_splits)

lemma on_success_Inr:
  "on_success ow k d req = Inr r \<Longrightarrow>
   errors_of r = (errors_of req)(k := None) \<and> values_of r = (values_of req)(k \<mapsto> d) \<and>
   part r = (if ow then (part req)(k := d) else part req) \<and>
   getter_only r = getter_only req \<and> (ow \<longrightarrow> k \<notin> getter_only req)"
  by (auto simp: on_success_def Let_def errors_of_def values_of_def split: if_splits)

lemma errors_of_on_failure [simp]:
  "errors_of (on_failure k e req) = (errors_of req)(k \<mapsto> e)"
  by (simp add: on_failure_def errors_of_def Let_def)

lemma values_of_on_failure [simp]:
  "values_of (on_failure k e req) = (values_of req)(k := None)"
  by (simp add: on_failure_def values_of_def Let_def)

lemma part_on_failure [simp]: "part (on_failure k e req) = part req"
  by (simp add: on_failure_def Let_def)

lemma getter_only_on_failure [simp]: "getter_only (on_failure k e req) = getter_only req"
  by (simp add: on_failure_def Let_def)

lemma request_called [simp]: "request (called k out) = request out"
  by (simp add: called_def split: prod.splits)

lemma calls_called [simp]: "calls (called k out) = k # calls out"
  by (simp add: called_def split: prod.splits)

lemma next_called [simp]: "next_call (called k out) = next_call out"
  by (simp add: called_def split: prod.splits)

lemma errors_of_ensure [simp]: "errors_of (ensure_fields req) = errors_of req"
  by (simp add: ensure_fields_def errors_of_def)

lemma values_of_ensure [simp]: "values_of (ensure_fields req) = values_of req"
  by (simp add: ensure_fields_def values_of_def)

lemma part_ensure [simp]: "part (ensure_fields req) = part req"
  by (simp add: ensure_fields_def)

lemma getter_only_ensure [simp]: "getter_only (ensure_fields req) = getter_only req"
  by (simp add: ensure_fields_def)

lemma configs_of_ensure [simp]: "configs_of (ensure_fields req) = configs_of req"
  by (simp add: ensure_fields_def configs_of_def)

lemma validate_for_entries:
  "validate props options req =
     for_entries (with_default False (throwErrors (configs_of req)))
       (with_default False (overwriteRequest (configs_of req))) options props (ensure_fields req)"
  by (simp add: validate_def Let_def)

lemma configured_simps [simp]:
  "configured [] = []"
  "configured ((k, None) # rest) = configured rest"
  "configured ((k, Some s) # rest) = k # configured rest"
  by (simp_all add: configured_def)

lemma set_configured: "set (configured props) \<subseteq> fst ` set props"
  by (auto simp: configured_def)

lemma configured_mem: "(k, Some schema) \<in> set props \<Longrightarrow> k \<in> set (configured props)"
  by (force simp: configured_def)

section \<open>Properties of the loop\<close>

text \<open>
  A property of the request that every success branch and every failure branch of an
  entry of the schema map keeps is kept by the loop.
\<close>

lemma for_entries_invariant:
  assumes "P req"
    and "\<And>r key d r'. P r \<Longrightarrow> key \<in> fst ` set props \<Longrightarrow>
           on_success ow key d r = Inl r' \<or> on_success ow key d r = Inr r' \<Longrightarrow> P r'"
    and "\<And>r key e. P r \<Longrightarrow> key \<in> fst ` set props \<Longrightarrow> P (on_failure key e r)"
  shows "P (request (for_entries te ow opts props req))"
  using assms
proof (induction te ow opts props req rule: for_entries.induct)
  case (1 te ow opts req)
  then show ?case by simp
next
  case (2 te ow opts key rest req)
  have s: "P r'" if "P r" "k' \<in> fst ` set rest"
      "on_success ow k' d r = Inl r' \<or> on_success ow k' d r = Inr r'" for r k' d r'
    using that "2.prems"(2)[of r k' d r'] by auto
  have f: "P (on_failure k' e r)" if "P r" "k' \<in> fst ` set rest" for r k' e
    using that "2.prems"(3)[of r k' e] by auto
  from "2.IH"[OF "2.prems"(1) s f] show ?case by simp
next
  case (3 te ow opts key schema rest req)
  have s: "P r'" if "P r" "k' \<in> fst ` set rest"
      "on_success ow k' d r = Inl r' \<or> on_success ow k' d r = Inr r'" for r k' d r'
    using that "3.prems"(2)[of r k' d r'] by auto
  have f: "P (on_failure k' e r)" if "P r" "k' \<in> fst ` set rest" for r k' e
    using that "3.prems"(3)[of r k' e] by auto
  show ?case
  proof (cases "schema (part req key) opts")
    case (Inl exn)
    with "3.prems"(1) show ?thesis by simp
  next
    case (Inr result)
    show ?thesis
    proof (cases result)
      case (success data)
      show ?thesis
      proof (cases "on_success ow key data req")
        case (Inl r1)
        with "3.prems"(1) "3.prems"(2)[of req key data r1] Inr success
        show ?thesis by simp
      next
        case r1: (Inr r1)
        with "3.prems"(1) "3.prems"(2)[of req key data r1] have "P r1" by simp
        from "3.IH"(1)[OF Inr success r1 this s f] Inr success r1
        show ?thesis by simp
      qed
    next
      case (failure error)
      from "3.prems"(1) "3.prems"(3)[of req key error]
      have p: "P (on_failure key error req)" by simp
      show ?thesis
      proof (cases te)
        case True
        with p Inr failure show ?thesis by simp
      next
        case False
        from "3.IH"(2)[OF Inr failure False p s f] Inr failure False
        show ?thesis by simp
      qed
    qed
  qed
qed

text \<open>A key that no entry names keeps its error, its value and its live data.\<close>

lemma for_entries_frame:
  assumes "k \<notin> fst ` set props"
  shows "errors_of (request (for_entries te ow opts props req)) k = errors_of req k \<and>
   values_of (request (for_entries te ow opts props req)) k = values_of req k \<and>
   part (request (for_entries te ow opts props req)) k = part req k"
  by (rule for_entries_invariant[where P = "\<lambda>r. errors_of r k = errors_of req k \<and>
        values_of r k = values_of req k \<and> part r k = part req k"])
     (use assms in \<open>auto dest!: on_success_Inl on_success_Inr simp: image_iff\<close>)

text \<open>The loop does not change which properties are getter-only.\<close>

lemma for_entries_getter_only:
  "getter_only (request (for_entries te ow opts props req)) = getter_only req"
  by (rule for_entries_invariant[where P = "\<lambda>r. getter_only r = getter_only req"])
     (auto dest!: on_success_Inl on_success_Inr)


text \<open>An entry, once there, is replaced but never removed without a replacement.\<close>

lemma for_entries_has_entry:
  assumes "has_entry req k"
  shows "has_entry (request (for_entries te ow opts props req)) k"
  by (rule for_entries_invariant[where P = "\<lambda>r. has_entry r k"])
     (use assms in \<open>auto simp: has_entry_def dest!: on_success_Inl on_success_Inr split: if_splits\<close>)

text \<open>With \<^verbatim>\<open>overwriteRequest\<close> false the loop has no assignment to \<^verbatim>\<open>req[key]\<close>.\<close>

lemma for_entries_part_unchanged:
  "part (request (for_entries te False opts props req)) = part req"
  by (rule for_entries_invariant[where P = "\<lambda>r. part r = part req"])
     (auto dest!: on_success_Inl on_success_Inr)

text \<open>The schema calls follow the entries, and reach all of them unless the loop stops.\<close>

lemma for_entries_calls:
  "prefix (calls (for_entries te ow opts props req)) (configured props) \<and>
   (next_call (for_entries te ow opts props req) = Next \<longrightarrow>
      calls (for_entries te ow opts props req) = configured props)"
  by (induction te ow opts props req rule: for_entries.induct)
     (auto split: sum.splits SafeParseResult.splits)

text \<open>
  When the loop over a first run of entries ends with \<open>Next\<close>, the loop over a longer
  list continues from the request that run left.
\<close>

lemma for_entries_append_Next:
  "for_entries te ow opts xs req = (req1, calls1, Next) \<Longrightarrow>
   for_entries te ow opts (xs @ ys) req =
     (case for_entries te ow opts ys req1 of (req2, calls2, nxt) \<Rightarrow> (req2, calls1 @ calls2, nxt))"
proof (induction te ow opts xs req arbitrary: calls1 rule: for_entries.induct)
  case (1 te ow opts req)
  then show ?case by simp
next
  case (2 te ow opts key rest req)
  then show ?case by simp
next
  case (3 te ow opts key schema rest req)
  show ?case
  proof (cases "schema (part req key) opts")
    case (Inl exn)
    with "3.prems" show ?thesis by simp
  next
    case (Inr result)
    show ?thesis
    proof (cases result)
      case (success data)
      show ?thesis
      proof (cases "on_success ow key data req")
        case (Inl r1)
        with "3.prems" Inr success show ?thesis by simp
      next
        case r1: (Inr r1)
        obtain r c n where run: "for_entries te ow opts rest r1 = (r, c, n)"
          by (cases "for_entries te ow opts rest r1") auto
        with "3.prems" Inr success r1 have *: "r = req1" "calls1 = key # c" "n = Next"
          by (auto simp: called_def)
        from "3.IH"(1)[OF Inr success r1, of c] run *
        have "for_entries te ow opts (rest @ ys) r1 =
           (case for_entries te ow opts ys req1 of (req2, calls2, nxt) \<Rightarrow> (req2, c @ calls2, nxt))"
          by simp
        with Inr success r1 * show ?thesis
          by (simp add: called_def split: prod.splits)
      qed
    next
      case (failure error)
      let ?r = "on_failure key error req"
      from "3.prems" Inr failure have nt: "\<not> te" by (auto split: if_splits)
      obtain r c n where run: "for_entries te ow opts rest ?r = (r, c, n)"
        by (cases "for_entries te ow opts rest ?r") auto
      with "3.prems" Inr failure nt have *: "r = req1" "calls1 = key # c" "n = Next"
        by (auto simp: called_def)
      from "3.IH"(2)[OF Inr failure nt, of c] run *
      have "for_entries te ow opts (rest @ ys) ?r =
         (case for_entries te ow opts ys req1 of (req2, calls2, nxt) \<Rightarrow> (req2, c @ calls2, nxt))"
        by simp
      with Inr failure nt * show ?thesis
        by (simp add: called_def split: prod.splits)
    qed
  qed
qed

text \<open>
  What the loop leaves under a key whose schema it ran, when the entries have distinct
  keys: the outcome of that schema on the live data the request came with.
\<close>

lemma for_entries_outcome:
  assumes "distinct (map fst props)" and "(k, Some schema) \<in> set props"
    and "k \<in> set (calls (for_entries te ow opts props req))"
  shows "(\<forall>data. schema (part req k) opts = Inr (success data) \<longrightarrow>
            values_of (request (for_entries te ow opts props req)) k = Some data \<and>
            errors_of (request (for_entries te ow opts props req)) k = None) \<and>
         (\<forall>error. schema (part req k) opts = Inr (failure error) \<longrightarrow>
            errors_of (request (for_entries te ow opts props req)) k = Some error \<and>
            values_of (request (for_entries te ow opts props req)) k = None)"
  using assms
proof (induction te ow opts props req rule: for_entries.induct)
  case (1 te ow opts req)
  then show ?case by simp
next
  case (2 te ow opts key rest req)
  then show ?case by auto
next
  case (3 te ow opts key sch rest req)
  show ?case
  proof (cases "key = k")
    case True
    with "3.prems" have sch: "sch = schema" and notin: "k \<notin> fst ` set rest"
      by (auto simp: rev_image_eqI)
    show ?thesis
    proof (cases "sch (part req key) opts")
      case (Inl exn)
      with True sch show ?thesis by simp
    next
      case (Inr result)
      show ?thesis
      proof (cases result)
        case (success data)
        show ?thesis
        proof (cases "on_success ow key data req")
          case (Inl r1)
          with on_success_Inl[OF Inl] True sch Inr success show ?thesis by simp
        next
          case r1: (Inr r1)
          from Inr success r1
          have res: "for_entries te ow opts ((key, Some sch) # rest) req =
                     called key (for_entries te ow opts rest r1)"
            by simp
          from on_success_Inr[OF r1] for_entries_frame[OF notin, of te ow opts r1]
            True sch Inr success
          show ?thesis unfolding res by simp
        qed
      next
        case (failure error)
        show ?thesis
        proof (cases te)
          case stop: True
          from stop True sch Inr failure show ?thesis by simp
        next
          case go: False
          from go for_entries_frame[OF notin, of te ow opts "on_failure key error req"]
            True sch Inr failure
          show ?thesis by simp
        qed
      qed
    qed
  next
    case False
    with "3.prems" have dist: "distinct (map fst rest)" and mem: "(k, Some schema) \<in> set rest"
      by auto
    show ?thesis
    proof (cases "sch (part req key) opts")
      case (Inl exn)
      with "3.prems" False show ?thesis by simp
    next
      case (Inr result)
      show ?thesis
      proof (cases result)
        case (success data)
        show ?thesis
        proof (cases "on_success ow key data req")
          case (Inl r1)
          with "3.prems" Inr success False show ?thesis by simp
        next
          case r1: (Inr r1)
          with "3.prems" Inr success False
          have "k \<in> set (calls (for_entries te ow opts rest r1))"
            by simp
          from "3.IH"(1)[OF Inr success r1 dist mem this] on_success_Inr[OF r1]
            Inr success r1 False
          show ?thesis by simp
        qed
      next
        case (failure error)
        show ?thesis
        proof (cases te)
          case True
          with "3.prems" Inr failure False show ?thesis by simp
        next
          case nt: False
          with "3.prems" Inr failure False
          have "k \<in> set (calls (for_entries te ow opts rest (on_failure key error req)))"
            by simp
          from "3.IH"(2)[OF Inr failure nt dist mem this] Inr failure False nt
          show ?thesis by simp
        qed
      qed
    qed
  qed
qed

text \<open>A loop that reaches \<^verbatim>\<open>next()\<close> has left an entry for every key with a schema.\<close>

lemma for_entries_completed:
  "(k, Some schema) \<in> set props \<Longrightarrow> next_call (for_entries te ow opts props req) = Next \<Longrightarrow>
   has_entry (request (for_entries te ow opts props req)) k"
proof (induction te ow opts props req rule: for_entries.induct)
  case (1 te ow opts req)
  then show ?case by simp
next
  case (2 te ow opts key rest req)
  then show ?case by auto
next
  case (3 te ow opts key sch rest req)
  show ?case
  proof (cases "sch (part req key) opts")
    case (Inl exn)
    with "3.prems" show ?thesis by simp
  next
    case (Inr result)
    show ?thesis
    proof (cases result)
      case (success data)
      show ?thesis
      proof (cases "on_success ow key data req")
        case (Inl r1)
        with "3.prems" Inr success show ?thesis by simp
      next
        case r1: (Inr r1)
        from "3.prems" Inr success r1 have nx: "next_call (for_entries te ow opts rest r1) = Next"
          by simp
        have "has_entry (request (for_entries te ow opts rest r1)) k"
        proof (cases "key = k")
          case True
          with on_success_Inr[OF r1] have "has_entry r1 k" by (simp add: has_entry_def)
          then show ?thesis by (rule for_entries_has_entry)
        next
          case False
          with "3.prems" have "(k, Some schema) \<in> set rest" by auto
          from "3.IH"(1)[OF Inr success r1 this nx] show ?thesis .
        qed
        with Inr success r1 show ?thesis by simp
      qed
    next
      case (failure error)
      let ?r = "on_failure key error req"
      from "3.prems" Inr failure have nt: "\<not> te" by (auto split: if_splits)
      with "3.prems" Inr failure have nx: "next_call (for_entries te ow opts rest ?r) = Next"
        by simp
      have "has_entry (request (for_entries te ow opts rest ?r)) k"
      proof (cases "key = k")
        case True
        then have "has_entry ?r k" by (simp add: has_entry_def)
        then show ?thesis by (rule for_entries_has_entry)
      next
        case False
        with "3.prems" have "(k, Some schema) \<in> set rest" by auto
        from "3.IH"(2)[OF Inr failure nt this nx] show ?thesis .
      qed
      with Inr failure nt show ?thesis by simp
    qed
  qed
qed




text \<open>
  The loop reads the live data, the getter-only properties and the two maps of the
  request and nothing else of it: two requests that agree on these are observed alike.
\<close>

lemma observed_called:
  "observed (called k out) =
     (case observed out of (p, e, v, c, n) \<Rightarrow> (p, e, v, k # c, n))"
  by (simp add: observed_def split: prod.splits)

lemma on_success_cong:
  assumes "part r1 = part r2" "getter_only r1 = getter_only r2"
    "errors_of r1 = errors_of r2" "values_of r1 = values_of r2"
  shows "(\<exists>a b. on_success ow key d r1 = Inl a \<and> on_success ow key d r2 = Inl b \<and>
            part a = part b \<and> getter_only a = getter_only b \<and>
            errors_of a = errors_of b \<and> values_of a = values_of b) \<or>
         (\<exists>a b. on_success ow key d r1 = Inr a \<and> on_success ow key d r2 = Inr b \<and>
            part a = part b \<and> getter_only a = getter_only b \<and>
            errors_of a = errors_of b \<and> values_of a = values_of b)"
  using assms by (simp add: on_success_def Let_def errors_of_def values_of_def)

lemma observed_for_entries_cong:
  "part r1 = part r2 \<Longrightarrow> getter_only r1 = getter_only r2 \<Longrightarrow>
   errors_of r1 = errors_of r2 \<Longrightarrow> values_of r1 = values_of r2 \<Longrightarrow>
   observed (for_entries te ow opts props r1) = observed (for_entries te ow opts props r2)"
proof (induction props arbitrary: r1 r2)
  case Nil
  then show ?case by (simp add: observed_def)
next
  case (Cons entry rest)
  obtain key schema where entry: "entry = (key, schema)" by (cases entry)
  show ?case
  proof (cases schema)
    case None
    from Cons.IH[OF Cons.prems] show ?thesis by (simp add: entry None)
  next
    case (Some sch)
    have f: "observed (for_entries te ow opts rest (on_failure key e r1)) =
             observed (for_entries te ow opts rest (on_failure key e r2))" for e
      by (rule Cons.IH) (simp_all add: Cons.prems)
    show ?thesis
    proof (cases "sch (part r2 key) opts")
      case (Inl exn)
      then show ?thesis by (simp add: entry Some Cons.prems observed_def)
    next
      case (Inr result)
      show ?thesis
      proof (cases result)
        case (success data)
        from on_success_cong[OF Cons.prems, of ow key data] show ?thesis
        proof (elim disjE exE conjE)
          fix a b
          assume "on_success ow key data r1 = Inl a" "on_success ow key data r2 = Inl b"
            "part a = part b" "errors_of a = errors_of b" "values_of a = values_of b"
          then show ?thesis
            by (simp add: entry Some Cons.prems Inr success observed_def)
        next
          fix a b
          assume ab: "on_success ow key data r1 = Inr a" "on_success ow key data r2 = Inr b"
            and eq: "part a = part b" "getter_only a = getter_only b"
              "errors_of a = errors_of b" "values_of a = values_of b"
          from Cons.IH[OF eq] ab show ?thesis
            by (simp add: entry Some Cons.prems Inr success observed_called)
        qed
      next
        case (failure error)
        show ?thesis
        proof (cases te)
          case True
          then show ?thesis
            by (simp add: entry Some Cons.prems Inr failure observed_def)
        next
          case False
          with f[of error] show ?thesis
            by (simp add: entry Some Cons.prems Inr failure observed_called)
        qed
      qed
    qed
  qed
qed

lemma validate_observed:
  "observed (validate props options req) =
   observed (for_entries (with_default False (throwErrors (configs_of req)))
       (with_default False (overwriteRequest (configs_of req))) options props req)"
  unfolding validate_for_entries by (rule observed_for_entries_cong) simp_all

section \<open>The claims\<close>




text \<open>
  Claim C2. For every entry of the schema map whose schema the middleware ran (the keys
  of a schema map are distinct): if the schema accepts the data the request came with,
  the value map afterwards holds the output under that key and the error map has no
  entry for it; if the schema rejects the data, the error map afterwards holds the
  validation error under that key and the value map has no entry for it.
\<close>

theorem validate_records_outcome:
  assumes "distinct (map fst props)" and "(k, Some schema) \<in> set props"
    and "k \<in> set (calls (validate props options req))"
  shows "(\<forall>data. schema (part req k) options = Inr (success data) \<longrightarrow>
            values_of (request (validate props options req)) k = Some data \<and>
            errors_of (request (validate props options req)) k = None) \<and>
         (\<forall>error. schema (part req k) options = Inr (failure error) \<longrightarrow>
            errors_of (request (validate props options req)) k = Some error \<and>
            values_of (request (validate props options req)) k = None)"
  using for_entries_outcome[OF assms(1,2), of _ _ options "ensure_fields req"] assms(3)
  by (simp add: validate_for_entries)

text \<open>An instance with both outcomes: the headers are rejected, the body is accepted.\<close>

theorem validate_records_outcome_witness:
  "distinct (map fst [(''headers'', Some rejecting), (''body'', Some accepting)]) \<and>
   calls (validate [(''headers'', Some rejecting), (''body'', Some accepting)] () incoming)
     = [''headers'', ''body''] \<and>
   accepting (part incoming ''body'') () = Inr (success ''John!'') \<and>
   values_of (request (validate [(''headers'', Some rejecting), (''body'', Some accepting)] () incoming))
     ''body'' = Some ''John!'' \<and>
   errors_of (request (validate [(''headers'', Some rejecting), (''body'', Some accepting)] () incoming))
     ''body'' = None \<and>
   rejecting (part incoming ''headers'') () = Inr (failure ''invalid'') \<and>
   errors_of (request (validate [(''headers'', Some rejecting), (''body'', Some accepting)] () incoming))
     ''headers'' = Some ''invalid'' \<and>
   values_of (request (validate [(''headers'', Some rejecting), (''body'', Some accepting)] () incoming))
     ''headers'' = None"
proof -
  let ?props = "[(''headers'', Some rejecting), (''body'', Some accepting)]"
  have d: "distinct (map fst ?props)" by simp
  have c: "calls (validate ?props () incoming) = [''headers'', ''body'']"
    by (simp add: run_simps)
  have a: "accepting (part incoming ''body'') () = Inr (success ''John!'')"
    by (simp add: incoming_def accepting_def)
  have r: "rejecting (part incoming ''headers'') () = Inr (failure ''invalid'')"
    by (simp add: rejecting_def)
  have mb: "(''body'', Some accepting) \<in> set ?props" by simp
  have mh: "(''headers'', Some rejecting) \<in> set ?props" by simp
  have cb: "''body'' \<in> set (calls (validate ?props () incoming))" using c by simp
  have ch: "''headers'' \<in> set (calls (validate ?props () incoming))" using c by simp
  from validate_records_outcome[OF d mb cb] validate_records_outcome[OF d mh ch] d c a r
  show ?thesis by simp
qed

text \<open>
  Claim C3. When the effective \<^verbatim>\<open>throwErrors\<close> is true and the schema of an entry
  rejects its data, after the entries before it were processed and left the request
  \<open>req1\<close>: the middleware stops there and calls \<open>next\<close> with that validation error; the
  key of the failing entry is the last schema call, so no later entry is processed; and
  the request is \<open>req1\<close> with the failure recorded for that key, so every other key keeps
  what the earlier entries produced.
\<close>

theorem throw_errors_stops_at_failure:
  assumes "with_default False (throwErrors (configs_of req))"
    and "validate before options req = (req1, calls1, Next)"
    and "schema (part req1 k) options = Inr (failure error)"
  shows "validate (before @ (k, Some schema) # after) options req =
           (on_failure k error req1, calls1 @ [k], NextError error)"
  using assms by (simp add: validate_for_entries for_entries_append_Next)

text \<open>
  An instance: headers accepted, body rejected, query never reached. The value of the
  headers stays, the query has no entry.
\<close>

theorem throw_errors_stops_at_failure_witness:
  "with_default False (throwErrors (configs_of throwing_request)) \<and>
   validate [(''headers'', Some accepting)] () throwing_request =
     (request (validate [(''headers'', Some accepting)] () throwing_request), [''headers''], Next) \<and>
   rejecting (part (request (validate [(''headers'', Some accepting)] () throwing_request)) ''body'') ()
     = Inr (failure ''invalid'') \<and>
   validate ([(''headers'', Some accepting)] @ (''body'', Some rejecting) # [(''query'', Some accepting)])
       () throwing_request =
     (on_failure ''body'' ''invalid'' (request (validate [(''headers'', Some accepting)] () throwing_request)),
      [''headers''] @ [''body''], NextError ''invalid'') \<and>
   values_of (request (validate
       ([(''headers'', Some accepting)] @ (''body'', Some rejecting) # [(''query'', Some accepting)])
       () throwing_request)) ''headers'' = Some ''json!'' \<and>
   values_of (request (validate
       ([(''headers'', Some accepting)] @ (''body'', Some rejecting) # [(''query'', Some accepting)])
       () throwing_request)) ''query'' = None"
proof -
  let ?req1 = "request (validate [(''headers'', Some accepting)] () throwing_request)"
  have t: "with_default False (throwErrors (configs_of throwing_request))"
    by (simp add: throwing_request_def run_simps)
  have b: "validate [(''headers'', Some accepting)] () throwing_request = (?req1, [''headers''], Next)"
    by (simp add: throwing_request_def run_simps)
  have f: "rejecting (part ?req1 ''body'') () = Inr (failure ''invalid'')"
    by (simp add: rejecting_def)
  have v: "values_of (on_failure ''body'' ''invalid'' ?req1) ''headers'' = Some ''json!''"
    by (simp add: throwing_request_def run_simps)
  have q: "values_of (on_failure ''body'' ''invalid'' ?req1) ''query'' = None"
    by (simp add: throwing_request_def run_simps)
  from throw_errors_stops_at_failure[where schema = rejecting and k = "''body''"
      and after = "[(''query'', Some accepting)]", OF t b f] t b f v q
  show ?thesis by simp
qed

text \<open>
  Claim C4. With \<^verbatim>\<open>throwErrors\<close> set, a validation failure is to be forwarded to the
  framework and not recorded in the error map. The code records the error (line 58)
  before it tests \<^verbatim>\<open>throwErrors\<close> (line 60): on a request configured with
  \<^verbatim>\<open>{ throwErrors: true }\<close> and a body that its schema rejects, the error is
  forwarded and the error map holds it under \<^verbatim>\<open>body\<close> as well.
\<close>

theorem thrown_error_is_also_recorded:
  "next_call (validate [(''body'', Some rejecting)] () throwing_request) = NextError ''invalid'' \<and>
   errors_of (request (validate [(''body'', Some rejecting)] () throwing_request)) ''body''
     = Some ''invalid''"
  by (simp add: throwing_request_def run_simps)

text \<open>
  Claim C5, as the specification words it: the parts are processed in the fixed order
  headers, params, query, body whatever the order of the schema map. It fails for a
  schema map written \<^verbatim>\<open>{ body, headers }\<close>: the body is validated first.
\<close>

theorem fixed_order_counterexample:
  "calls (validate [(''body'', Some accepting), (''headers'', Some accepting)] () incoming)
     = [''body'', ''headers''] \<and>
   spec_fixed_order [(''body'', Some accepting), (''headers'', Some accepting)]
     = [''headers'', ''body'']"
  by (simp add: run_simps spec_fixed_order_def fixed_order_def)

text \<open>
  Claim C5, amended. The middleware processes the configured parts in the order of the
  entries of the schema map (the order of \<^verbatim>\<open>Object.entries\<close>, which for these keys
  is the order in which they were written): the schema calls are always an initial
  segment of the keys that have a schema, in entry order, and all of them when the
  middleware ends with \<^verbatim>\<open>next()\<close>.
\<close>

theorem calls_follow_entries:
  "prefix (calls (validate props options req)) (configured props) \<and>
   (next_call (validate props options req) = Next \<longrightarrow>
      calls (validate props options req) = configured props)"
  using for_entries_calls[of _ _ options props "ensure_fields req"]
  by (simp add: validate_for_entries)

text \<open>An instance: body, then an entry without schema, then headers.\<close>

theorem calls_follow_entries_witness:
  "next_call (validate [(''body'', Some rejecting), (''query'', None), (''headers'', Some accepting)] ()
      incoming) = Next \<and>
   calls (validate [(''body'', Some rejecting), (''query'', None), (''headers'', Some accepting)] ()
      incoming) = [''body'', ''headers'']"
proof -
  let ?props = "[(''body'', Some rejecting), (''query'', None), (''headers'', Some accepting)]"
  have n: "next_call (validate ?props () incoming) = Next"
    by (simp add: run_simps)
  from calls_follow_entries[of ?props "()" incoming] n
  show ?thesis by simp
qed

text \<open>
  Claim C6. With \<^verbatim>\<open>overwriteRequest\<close> on, the live request data of a part that was
  validated successfully is to equal the output of its schema; with it off the live data
  is left as it was (the loop then has no assignment to \<^verbatim>\<open>req[key]\<close>). The code
  does the first by the assignment of line 56. On a request that defines \<^verbatim>\<open>query\<close>
  by a getter, as Express 5 does, that assignment throws: for the schema map
  \<^verbatim>\<open>{ query }\<close> with an accepting schema the middleware ends in its \<^verbatim>\<open>catch\<close>
  with \<^verbatim>\<open>next(error)\<close>, and \<^verbatim>\<open>req.query\<close> is not the output.
\<close>

theorem overwrite_throws_on_getter:
  "with_default False (overwriteRequest (configs_of overwriting_request)) \<and>
   accepting (part overwriting_request ''query'') () = Inr (success ''page=2!'') \<and>
   calls (validate [(''query'', Some accepting)] () overwriting_request) = [''query''] \<and>
   next_call (validate [(''query'', Some accepting)] () overwriting_request) = NextTypeError \<and>
   part (request (validate [(''query'', Some accepting)] () overwriting_request)) ''query''
     = ''page=2''"
  by (simp add: overwriting_request_def run_simps)

text \<open>
  Claim C7, as the specification words it: a key of the schema map other than headers,
  params, query and body is ignored. The loop has no test of the key: for a schema map
  with the key \<^verbatim>\<open>cookies\<close> it runs the schema on \<^verbatim>\<open>req.cookies\<close> and writes the
  output into the value map under that key.
\<close>

theorem other_key_counterexample:
  "''cookies'' \<notin> ValidationKey \<and>
   calls (validate [(''cookies'', Some accepting)] () incoming) = [''cookies''] \<and>
   values_of (request (validate [(''cookies'', Some accepting)] () incoming)) ''cookies''
     = Some ''none!''"
  by (simp add: run_simps ValidationKey_def)

text \<open>
  Claim C7, amended. Only the declared type of the schema map limits its keys to
  headers, params, query and body; the middleware itself filters no key. For a schema
  map in which no entry with a schema is named after one of the request's own three
  validation fields or \<^verbatim>\<open>__proto__\<close>: whenever the middleware ends with
  \<^verbatim>\<open>next()\<close>, every entry of the schema map that has a schema, whatever its key,
  has been validated and has an entry under its key in the error map or the value map.
\<close>

theorem any_key_is_processed:
  assumes "set (configured props) \<inter> unmodelled_keys = {}"
    and "(k, Some schema) \<in> set props" and "next_call (validate props options req) = Next"
  shows "k \<in> set (calls (validate props options req)) \<and>
         k \<in> dom (errors_of (request (validate props options req))) \<union>
             dom (values_of (request (validate props options req)))"
proof
  from assms(3) for_entries_calls[of _ _ options props "ensure_fields req"]
  have "calls (validate props options req) = configured props"
    by (simp add: validate_for_entries)
  with configured_mem[OF assms(2)] show "k \<in> set (calls (validate props options req))"
    by simp
next
  from for_entries_completed[OF assms(2), of _ _ options "ensure_fields req"] assms(3)
  have "has_entry (request (validate props options req)) k"
    by (simp add: validate_for_entries)
  then show "k \<in> dom (errors_of (request (validate props options req))) \<union>
             dom (values_of (request (validate props options req)))"
    by (simp add: has_entry_def)
qed

text \<open>An instance: a schema map with the keys \<^verbatim>\<open>cookies\<close> and \<^verbatim>\<open>body\<close>.\<close>

theorem any_key_is_processed_witness:
  "set (configured [(''cookies'', Some accepting), (''body'', Some rejecting)]) \<inter> unmodelled_keys = {} \<and>
   (''cookies'', Some accepting) \<in> set [(''cookies'', Some accepting), (''body'', Some rejecting)] \<and>
   next_call (validate [(''cookies'', Some accepting), (''body'', Some rejecting)] () incoming) = Next \<and>
   ''cookies'' \<in> set (calls (validate [(''cookies'', Some accepting), (''body'', Some rejecting)] ()
      incoming)) \<and>
   ''cookies'' \<in>
     dom (errors_of (request (validate [(''cookies'', Some accepting), (''body'', Some rejecting)] ()
       incoming))) \<union>
     dom (values_of (request (validate [(''cookies'', Some accepting), (''body'', Some rejecting)] ()
       incoming)))"
proof -
  let ?props = "[(''cookies'', Some accepting), (''body'', Some rejecting)]"
  have f: "set (configured ?props) \<inter> unmodelled_keys = {}"
    by (simp add: unmodelled_keys_def validation_fields_def)
  have m: "(''cookies'', Some accepting) \<in> set ?props" by simp
  have n: "next_call (validate ?props () incoming) = Next"
    by (simp add: run_simps)
  from any_key_is_processed[OF f m n] f m n show ?thesis by simp
qed

text \<open>
  Claim C8. When the evaluation of a schema throws, after the entries before it were
  processed and left the request \<open>req1\<close>: the middleware calls \<open>next\<close> with the thrown
  value as it is, and the request stays \<open>req1\<close>. So the exception is not written into
  the error map, and the entries recorded for earlier parts remain.
\<close>

theorem exception_is_forwarded:
  assumes "validate before options req = (req1, calls1, Next)"
    and "schema (part req1 k) options = Inl exn"
  shows "validate (before @ (k, Some schema) # after) options req =
           (req1, calls1 @ [k], NextThrown exn)"
  using assms by (simp add: validate_for_entries for_entries_append_Next)

text \<open>
  An instance: the headers are rejected and recorded, the schema of the body throws.
  The error of the headers stays and the body gets no error entry.
\<close>

theorem exception_is_forwarded_witness:
  "validate [(''headers'', Some rejecting)] () incoming =
     (request (validate [(''headers'', Some rejecting)] () incoming), [''headers''], Next) \<and>
   throwing (part (request (validate [(''headers'', Some rejecting)] () incoming)) ''body'') () = Inl ''boom'' \<and>
   validate ([(''headers'', Some rejecting)] @ (''body'', Some throwing) # [(''query'', Some accepting)])
       () incoming =
     (request (validate [(''headers'', Some rejecting)] () incoming), [''headers''] @ [''body''],
      NextThrown ''boom'') \<and>
   errors_of (request (validate
       ([(''headers'', Some rejecting)] @ (''body'', Some throwing) # [(''query'', Some accepting)])
       () incoming)) ''headers'' = Some ''invalid'' \<and>
   errors_of (request (validate
       ([(''headers'', Some rejecting)] @ (''body'', Some throwing) # [(''query'', Some accepting)])
       () incoming)) ''body'' = None"
proof -
  let ?req1 = "request (validate [(''headers'', Some rejecting)] () incoming)"
  have b: "validate [(''headers'', Some rejecting)] () incoming = (?req1, [''headers''], Next)"
    by (simp add: run_simps)
  have f: "throwing (part ?req1 ''body'') () = Inl ''boom''"
    by (simp add: throwing_def)
  have e: "errors_of ?req1 ''headers'' = Some ''invalid''"
    by (simp add: run_simps)
  have n: "errors_of ?req1 ''body'' = None"
    by (simp add: run_simps)
  from exception_is_forwarded[where schema = throwing and k = "''body''"
      and after = "[(''query'', Some accepting)]", OF b f] b f e n
  show ?thesis by simp
qed

text \<open>
  Claim C9. An invocation of \<open>validate\<close> changes the error-map and value-map entries of
  the keys its own schema map names only: for every other key both entries are the same
  before and after.
\<close>

theorem validate_frame:
  assumes "k \<notin> fst ` set props"
  shows "errors_of (request (validate props options req)) k = errors_of req k \<and>
         values_of (request (validate props options req)) k = values_of req k"
  using for_entries_frame[OF assms, of _ _ options "ensure_fields req"]
  by (simp add: validate_for_entries)

text \<open>
  An instance: the headers were rejected by an earlier validator; a later validator of
  the body leaves the headers' error in place.
\<close>

theorem validate_frame_witness:
  "''headers'' \<notin> fst ` set [(''body'', Some accepting)] \<and>
   errors_of (request (validate [(''headers'', Some rejecting)] () incoming)) ''headers'' = Some ''invalid'' \<and>
   errors_of (request (validate [(''body'', Some accepting)] ()
      (request (validate [(''headers'', Some rejecting)] () incoming)))) ''headers'' = Some ''invalid'' \<and>
   values_of (request (validate [(''body'', Some accepting)] ()
      (request (validate [(''headers'', Some rejecting)] () incoming)))) ''headers'' = None"
proof -
  have h: "''headers'' \<notin> fst ` set [(''body'', Some accepting)]" by simp
  have e: "errors_of (request (validate [(''headers'', Some rejecting)] () incoming)) ''headers'' = Some ''invalid''"
    by (simp add: run_simps)
  have v: "values_of (request (validate [(''headers'', Some rejecting)] () incoming)) ''headers'' = None"
    by (simp add: run_simps)
  from validate_frame[OF h, of "()" "request (validate [(''headers'', Some rejecting)] () incoming)"] h e v
  show ?thesis by simp
qed

text \<open>
  Claim C10. Each switch is resolved by itself, and an absent switch is false. What an
  invocation of \<open>validate\<close> does (live data, both maps, schema calls, call of \<open>next\<close>) is
  the same with no configuration record, and with the empty record, as with both
  switches given as false; after \<open>expressZodValidations\<close> with \<^verbatim>\<open>overwriteRequest\<close>
  left out it is the same as with \<^verbatim>\<open>overwriteRequest: false\<close>, whatever
  \<^verbatim>\<open>throwErrors\<close> is; and with \<^verbatim>\<open>throwErrors\<close> left out it is the same as with
  \<^verbatim>\<open>throwErrors: false\<close>, whatever \<^verbatim>\<open>overwriteRequest\<close> is.
\<close>

theorem absent_switch_is_false:
  "observed (validate props options (req\<lparr>validationConfigs := None\<rparr>)) =
   observed (validate props options
     (req\<lparr>validationConfigs := Some \<lparr>throwErrors = Some False, overwriteRequest = Some False\<rparr>\<rparr>)) \<and>
   observed (validate props options
     (req\<lparr>validationConfigs := Some \<lparr>throwErrors = None, overwriteRequest = None\<rparr>\<rparr>)) =
   observed (validate props options
     (req\<lparr>validationConfigs := Some \<lparr>throwErrors = Some False, overwriteRequest = Some False\<rparr>\<rparr>)) \<and>
   observed (validate props options
     (fst (expressZodValidations \<lparr>throwErrors = t, overwriteRequest = None\<rparr> req))) =
   observed (validate props options
     (fst (expressZodValidations \<lparr>throwErrors = t, overwriteRequest = Some False\<rparr> req))) \<and>
   observed (validate props options
     (fst (expressZodValidations \<lparr>throwErrors = None, overwriteRequest = ow\<rparr> req))) =
   observed (validate props options
     (fst (expressZodValidations \<lparr>throwErrors = Some False, overwriteRequest = ow\<rparr> req)))"
proof -
  have run: "observed (validate props options (req\<lparr>validationConfigs := c\<rparr>)) =
       observed (for_entries (with_default False (throwErrors (configs_of (req\<lparr>validationConfigs := c\<rparr>))))
         (with_default False (overwriteRequest (configs_of (req\<lparr>validationConfigs := c\<rparr>))))
         options props req)" for c
    unfolding validate_observed
    by (rule observed_for_entries_cong) (simp_all add: errors_of_def values_of_def)
  show ?thesis
    by (simp add: run expressZodValidations_def configs_of_def with_default_def)
qed

end
